theory Spec2Isabelle
  imports Main "HOL-Library.Word"
begin

unbundle bit_operations_syntax

section \<open>Go values used by the decoder\<close>

text \<open>
  The model covers \<^verbatim>\<open>zcode/lengthfieldframedecoder.go\<close>. A Go \<^verbatim>\<open>byte\<close> is an
  8-bit word. Go's \<^verbatim>\<open>int64\<close>, and \<^verbatim>\<open>int\<close> on a 64-bit platform, are
  integers kept in the range of 64-bit two's complement: every addition and subtraction of
  the source is followed by \<open>wrap64\<close>, so the conversions \<^verbatim>\<open>int64(x)\<close> and
  \<^verbatim>\<open>int(x)\<close> between the two are the identity.
\<close>

type_synonym byte = "8 word"

definition wrap64 :: "int \<Rightarrow> int" where
  "wrap64 x = (x + 2 ^ 63) mod 2 ^ 64 - 2 ^ 63"

text \<open>
  A panic is a value. \<open>SliceBoundsOutOfRange\<close> is the run-time panic of a slice
  expression whose bounds do not fit, \<open>MakeSliceLenOutOfRange\<close> the one of
  \<^verbatim>\<open>make([]byte, n)\<close> with negative \<open>n\<close>; the other three are the
  \<^verbatim>\<open>panic(fmt.Sprintf(...))\<close> calls of the source, with the numbers they print.
\<close>

datatype error =
    SliceBoundsOutOfRange
  | MakeSliceLenOutOfRange
  | UnsupportedLengthFieldLength int
  | NegativeLengthField int
  | FrameLengthLessThanInitialBytesToStrip int int

subsection \<open>\<^verbatim>\<open>bytes.Buffer\<close>\<close>

text \<open>
  A \<^verbatim>\<open>bytes.Buffer\<close> is a backing array with a read offset. The array is kept in
  three parts: \<open>consumed\<close>, the bytes before the read offset; \<open>unread\<close>, the
  contents \<^verbatim>\<open>b.buf[b.off:]\<close>; and \<open>spare\<close>, what the array holds between the
  length and the capacity of \<^verbatim>\<open>b.buf\<close>. The spare part matters because a Go slice
  expression on a slice is checked against the capacity, not the length.
\<close>

record Buffer =
  consumed :: "byte list"
  unread :: "byte list"
  spare :: "byte list"

text \<open>\<^verbatim>\<open>bytes.NewBuffer([]byte{})\<close>: an empty array of capacity 0.\<close>

definition NewBuffer :: Buffer where
  "NewBuffer = \<lparr>consumed = [], unread = [], spare = []\<rparr>"

definition Len :: "Buffer \<Rightarrow> int" where
  "Len b = int (length (unread b))"

text \<open>
  \<^verbatim>\<open>Next(n)\<close> advances the read offset by \<open>n\<close> bytes, or by \<open>Len\<close> when fewer
  are unread; its slice \<^verbatim>\<open>b.buf[b.off : b.off+n]\<close> panics for a negative \<open>n\<close>.
\<close>

definition Next :: "int \<Rightarrow> Buffer \<Rightarrow> error + Buffer" where
  "Next n b =
     (let m = Len b;
          n = (if n > m then m else n)
      in if n < 0 then Inl SliceBoundsOutOfRange
         else Inr (b\<lparr>consumed := consumed b @ take (nat n) (unread b),
                     unread := drop (nat n) (unread b)\<rparr>))"

text \<open>
  \<^verbatim>\<open>Read(p)\<close> for a freshly made \<open>p\<close> of \<open>k\<close> zero bytes: the contents of
  \<open>p\<close> afterwards, and the buffer. An empty buffer is reset first (length and offset
  0, the storage kept), so that the whole array becomes spare capacity.
\<close>

definition Read :: "nat \<Rightarrow> Buffer \<Rightarrow> byte list \<times> Buffer" where
  "Read k b =
     (if unread b = []
      then (replicate k 0, b\<lparr>consumed := [], spare := consumed b @ spare b\<rparr>)
      else (take k (unread b) @ replicate (k - length (unread b)) 0,
            b\<lparr>consumed := consumed b @ take k (unread b), unread := drop k (unread b)\<rparr>))"

text \<open>
  \<^verbatim>\<open>Write(p)\<close> appends \<open>p\<close> to the unread bytes. Where the bytes lie afterwards
  (whether the array was grown, moved or reused, and what follows the written bytes up to
  the capacity) is decided by the growth policy of \<^verbatim>\<open>bytes.Buffer\<close> and by the
  allocator, neither of which is part of this repository: the new \<open>consumed\<close> and
  \<open>spare\<close> parts are a parameter.
\<close>

type_synonym layout = "byte list \<times> byte list"

definition Write :: "layout \<Rightarrow> byte list \<Rightarrow> Buffer \<Rightarrow> Buffer" where
  "Write lay p b = \<lparr>consumed = fst lay, unread = unread b @ p, spare = snd lay\<rparr>"

text \<open>
  The slice expression \<^verbatim>\<open>arr[low:high]\<close> on \<^verbatim>\<open>arr := buf.Bytes()\<close>: the
  bounds are checked against the capacity of \<open>arr\<close>, which reaches over the spare
  part of the array.
\<close>

definition Bytes_slice :: "Buffer \<Rightarrow> int \<Rightarrow> int \<Rightarrow> error + byte list" where
  "Bytes_slice b low high =
     (if 0 \<le> low \<and> low \<le> high \<and> high \<le> Len b + int (length (spare b))
      then Inr (take (nat (high - low)) (drop (nat low) (unread b @ spare b)))
      else Inl SliceBoundsOutOfRange)"

subsection \<open>\<^verbatim>\<open>encoding/binary\<close>\<close>

datatype ByteOrder = BigEndian | LittleEndian

fun be_value :: "byte list \<Rightarrow> int" where
  "be_value [] = 0"
| "be_value (b # bs) = uint b * 256 ^ length bs + be_value bs"

text \<open>\<^verbatim>\<open>order.Uint16\<close>, \<^verbatim>\<open>Uint32\<close> and \<^verbatim>\<open>Uint64\<close> on 2, 4 and 8 bytes.\<close>

definition Uint :: "ByteOrder \<Rightarrow> byte list \<Rightarrow> int" where
  "Uint order bs = (case order of BigEndian \<Rightarrow> be_value bs | LittleEndian \<Rightarrow> be_value (rev bs))"

section \<open>The decoder\<close>

record EncoderData =
  byteOrder :: ByteOrder
  maxFrameLength :: int
  lengthFieldOffset :: int
  lengthFieldLength :: int
  lengthFieldEndOffset :: int
  lengthAdjustment :: int
  initialBytesToStrip :: int
  failFast :: bool
  discardingTooLongFrame :: bool
  tooLongFrameLength :: int
  bytesToDiscard :: int
  in_buf :: Buffer

definition NewLengthFieldFrameDecoder :: "int \<Rightarrow> int \<Rightarrow> int \<Rightarrow> int \<Rightarrow> int \<Rightarrow> EncoderData" where
  "NewLengthFieldFrameDecoder maxLen fieldOffset fieldLength adjustment strip =
     \<lparr>byteOrder = BigEndian,
      maxFrameLength = maxLen,
      lengthFieldOffset = fieldOffset,
      lengthFieldLength = fieldLength,
      lengthFieldEndOffset = wrap64 (fieldOffset + fieldLength),
      lengthAdjustment = adjustment,
      initialBytesToStrip = strip,
      failFast = False,
      discardingTooLongFrame = False,
      tooLongFrameLength = 0,
      bytesToDiscard = 0,
      in_buf = NewBuffer\<rparr>"

text \<open>The body of \<^verbatim>\<open>fail\<close> is commented out in the source: it does nothing.\<close>

definition fail :: "int \<Rightarrow> EncoderData \<Rightarrow> EncoderData" where
  "fail frameLength this = this"

definition failIfNecessary :: "bool \<Rightarrow> EncoderData \<Rightarrow> EncoderData" where
  "failIfNecessary firstDetectionOfTooLongFrame this =
     (if bytesToDiscard this = 0 then
        (let tooLong = tooLongFrameLength this;
             this = this\<lparr>tooLongFrameLength := 0, discardingTooLongFrame := False\<rparr>
         in if \<not> failFast this \<or> firstDetectionOfTooLongFrame then fail tooLong this else this)
      else
        (if failFast this \<and> firstDetectionOfTooLongFrame
         then fail (tooLongFrameLength this) this else this))"

text \<open>
  \<^verbatim>\<open>discardingTooLongFrameFunc\<close> computes
  \<^verbatim>\<open>math.Min(float64(bytesToDiscard), float64(buffer.Len()))\<close>, prints it, and then
  overwrites it: \<^verbatim>\<open>localBytesToDiscard = 2\<close>. Only the 2 reaches \<^verbatim>\<open>Next\<close> and
  the subtraction. The printing is not modelled.
\<close>

definition discardingTooLongFrameFunc :: "EncoderData \<Rightarrow> error \<times> EncoderData + EncoderData" where
  "discardingTooLongFrameFunc this =
     (let toDiscard = bytesToDiscard this;
          localBytesToDiscard = 2
      in case Next localBytesToDiscard (in_buf this) of
           Inl e \<Rightarrow> Inl (e, this)
         | Inr b \<Rightarrow>
             (let toDiscard = wrap64 (toDiscard - localBytesToDiscard)
              in Inr (failIfNecessary False (this\<lparr>in_buf := b, bytesToDiscard := toDiscard\<rparr>))))"

text \<open>
  \<^verbatim>\<open>getUnadjustedFrameLength\<close> slices the length field out of the buffer before it
  looks at the length. \<^verbatim>\<open>binary.Read\<close> then has exactly the bytes it needs and cannot
  fail: for \<^verbatim>\<open>int16\<close>, \<^verbatim>\<open>int32\<close> and \<^verbatim>\<open>int64\<close> it yields the unsigned value
  of the bytes in the given order, converted to the signed type. The message of the
  default case prints \<^verbatim>\<open>this.lengthFieldLength\<close>, which is the length that
  \<^verbatim>\<open>decode\<close> passes.
\<close>

definition getUnadjustedFrameLength :: "Buffer \<Rightarrow> int \<Rightarrow> int \<Rightarrow> ByteOrder \<Rightarrow> error + int" where
  "getUnadjustedFrameLength buf offset len order =
     (case Bytes_slice buf offset (wrap64 (offset + len)) of
        Inl e \<Rightarrow> Inl e
      | Inr arr \<Rightarrow>
          if len = 1 then Inr (uint (arr ! 0))
          else if len = 2 then Inr (sint (word_of_int (Uint order arr) :: 16 word))
          else if len = 3 then
            (if order = LittleEndian
             then Inr (uint (arr ! 0) OR push_bit 8 (uint (arr ! 1)) OR push_bit 16 (uint (arr ! 2)))
             else Inr (uint (arr ! 2) OR push_bit 8 (uint (arr ! 1)) OR push_bit 16 (uint (arr ! 0))))
          else if len = 4 then Inr (sint (word_of_int (Uint order arr) :: 32 word))
          else if len = 8 then Inr (sint (word_of_int (Uint order arr) :: 64 word))
          else Inl (UnsupportedLengthFieldLength len))"

text \<open>
  One call of \<^verbatim>\<open>decode\<close> ends in one of three ways: it returns a slice that is not
  \<^verbatim>\<open>nil\<close> (also when it is empty), it returns \<^verbatim>\<open>nil\<close>, or it panics. Each
  carries the decoder as the call left it.
\<close>

datatype outcome =
    Frame "byte list" EncoderData
  | NoFrame EncoderData
  | Panicked error EncoderData

definition failOnNegativeLengthField :: "EncoderData \<Rightarrow> int \<Rightarrow> int \<Rightarrow> outcome" where
  "failOnNegativeLengthField this frameLength endOffset =
     (case Next endOffset (in_buf this) of
        Inl e \<Rightarrow> Panicked e this
      | Inr b \<Rightarrow> Panicked (NegativeLengthField frameLength) (this\<lparr>in_buf := b\<rparr>))"

definition exceededFrameLength :: "EncoderData \<Rightarrow> int \<Rightarrow> error \<times> EncoderData + EncoderData" where
  "exceededFrameLength this frameLength =
     (let discard = wrap64 (frameLength - Len (in_buf this));
          this = this\<lparr>tooLongFrameLength := frameLength\<rparr>
      in if discard < 0 then
           (case Next frameLength (in_buf this) of
              Inl e \<Rightarrow> Inl (e, this)
            | Inr b \<Rightarrow> Inr (failIfNecessary True (this\<lparr>in_buf := b\<rparr>)))
         else
           (let this = this\<lparr>discardingTooLongFrame := True, bytesToDiscard := discard\<rparr>
            in case Next (Len (in_buf this)) (in_buf this) of
                 Inl e \<Rightarrow> Inl (e, this)
               | Inr b \<Rightarrow> Inr (failIfNecessary True (this\<lparr>in_buf := b\<rparr>))))"

definition failOnFrameLengthLessThanInitialBytesToStrip :: "EncoderData \<Rightarrow> int \<Rightarrow> int \<Rightarrow> outcome" where
  "failOnFrameLengthLessThanInitialBytesToStrip this frameLength strip =
     (case Next frameLength (in_buf this) of
        Inl e \<Rightarrow> Panicked e this
      | Inr b \<Rightarrow> Panicked (FrameLengthLessThanInitialBytesToStrip frameLength strip) (this\<lparr>in_buf := b\<rparr>))"

text \<open>
  The part of \<^verbatim>\<open>decode\<close> after the discarding block, from the test of
  \<^verbatim>\<open>in.Len()\<close> against \<^verbatim>\<open>lengthFieldOffset\<close> on.
\<close>

definition decode_frame :: "EncoderData \<Rightarrow> outcome" where
  "decode_frame this =
     (if Len (in_buf this) < lengthFieldOffset this then NoFrame this
      else
        let actualLengthFieldOffset = lengthFieldOffset this
        in case getUnadjustedFrameLength (in_buf this) actualLengthFieldOffset
                  (lengthFieldLength this) (byteOrder this) of
             Inl e \<Rightarrow> Panicked e this
           | Inr frameLength \<Rightarrow>
               if frameLength < 0
               then failOnNegativeLengthField this frameLength (lengthFieldEndOffset this)
               else
                 let frameLength =
                       wrap64 (frameLength + wrap64 (lengthAdjustment this + lengthFieldEndOffset this))
                 in if frameLength > maxFrameLength this then
                      (case exceededFrameLength this frameLength of
                         Inl (e, this) \<Rightarrow> Panicked e this
                       | Inr this \<Rightarrow> NoFrame this)
                    else
                      let frameLengthInt = frameLength
                      in if Len (in_buf this) < frameLengthInt then NoFrame this
                         else if initialBytesToStrip this > frameLengthInt then
                           failOnFrameLengthLessThanInitialBytesToStrip this frameLength
                             (initialBytesToStrip this)
                         else
                           (case Next (initialBytesToStrip this) (in_buf this) of
                              Inl e \<Rightarrow> Panicked e this
                            | Inr b \<Rightarrow>
                                let actualFrameLength = wrap64 (frameLengthInt - initialBytesToStrip this)
                                in if actualFrameLength < 0
                                   then Panicked MakeSliceLenOutOfRange (this\<lparr>in_buf := b\<rparr>)
                                   else
                                     let (buff, b) = Read (nat actualFrameLength) b
                                     in Frame buff (this\<lparr>in_buf := b\<rparr>)))"

definition decode :: "EncoderData \<Rightarrow> outcome" where
  "decode this =
     (if discardingTooLongFrame this then
        (case discardingTooLongFrameFunc this of
           Inl (e, this) \<Rightarrow> Panicked e this
         | Inr this \<Rightarrow> decode_frame this)
      else decode_frame this)"

text \<open>
  \<^verbatim>\<open>Decode\<close> appends the chunk and calls \<^verbatim>\<open>decode\<close> until it returns
  \<^verbatim>\<open>nil\<close>. The loop has no bound of its own, so it is a partial function: \<open>None\<close>
  is a loop that never ends. A panic leaves the loop with the frames collected so far lost.
\<close>

datatype feed_result =
    Returned "byte list list" EncoderData
  | Panic error EncoderData

partial_function (option) Decode_loop :: "EncoderData \<Rightarrow> byte list list \<Rightarrow> feed_result option" where
  "Decode_loop this resp =
     (case decode this of
        Frame arr this \<Rightarrow> Decode_loop this (resp @ [arr])
      | NoFrame this \<Rightarrow> Some (Returned resp this)
      | Panicked e this \<Rightarrow> Some (Panic e this))"

declare Decode_loop.simps [code]

definition Decode :: "layout \<Rightarrow> EncoderData \<Rightarrow> byte list \<Rightarrow> feed_result option" where
  "Decode lay this buff = Decode_loop (this\<lparr>in_buf := Write lay buff (in_buf this)\<rparr>) []"

text \<open>
  Feeding a stream as a sequence of chunks: \<^verbatim>\<open>Decode\<close> is called once per chunk, in
  order, on the same decoder, and the returned lists are concatenated. Each chunk comes
  with the layout of the buffer after its \<^verbatim>\<open>Write\<close>.
\<close>

fun feed_chunks :: "EncoderData \<Rightarrow> (layout \<times> byte list) list \<Rightarrow> feed_result option" where
  "feed_chunks this [] = Some (Returned [] this)"
| "feed_chunks this ((lay, chunk) # rest) =
     (case Decode lay this chunk of
        None \<Rightarrow> None
      | Some (Panic e this) \<Rightarrow> Some (Panic e this)
      | Some (Returned frames this) \<Rightarrow>
          (case feed_chunks this rest of
             None \<Rightarrow> None
           | Some (Panic e this) \<Rightarrow> Some (Panic e this)
           | Some (Returned later this) \<Rightarrow> Some (Returned (frames @ later) this)))"


section \<open>Buffer operations and the loop\<close>

lemma Next_nonneg:
  "0 \<le> n \<Longrightarrow>
   Next n b = Inr (b\<lparr>consumed := consumed b @ take (nat n) (unread b),
                      unread := drop (nat n) (unread b)\<rparr>)"
  by (simp add: Next_def Len_def Let_def)

lemma Bytes_slice_length:
  assumes "Bytes_slice b low high = Inr arr"
  shows "length arr = nat (high - low) \<and> 0 \<le> low \<and> low \<le> high"
  using assms by (auto simp: Bytes_slice_def Len_def split: if_splits)

text \<open>The discarding block cannot panic: its \<^verbatim>\<open>Next\<close> is called with the constant 2.\<close>

lemma discardingTooLongFrameFunc_eq:
  "discardingTooLongFrameFunc this =
     Inr (failIfNecessary False
       (this\<lparr>in_buf := (in_buf this)\<lparr>consumed := consumed (in_buf this) @ take 2 (unread (in_buf this)),
                                       unread := drop 2 (unread (in_buf this))\<rparr>,
             bytesToDiscard := wrap64 (bytesToDiscard this - 2)\<rparr>))"
  by (simp add: discardingTooLongFrameFunc_def Next_nonneg Let_def)

text \<open>
  In the statements below \<open>cur\<close> is the decoder at the point where \<^verbatim>\<open>decode\<close>
  compares \<^verbatim>\<open>in.Len()\<close> with \<^verbatim>\<open>lengthFieldOffset\<close>: the decoder itself when it
  is not in discarding mode, and the decoder after the discarding block otherwise.
\<close>

lemma decode_via_cur:
  assumes "if discardingTooLongFrame this
           then discardingTooLongFrameFunc this = Inr cur else cur = this"
  shows "decode this = decode_frame cur"
  using assms by (auto simp: decode_def split: if_splits)

lemma decode_waits_for_offset:
  assumes "\<not> discardingTooLongFrame this" and "Len (in_buf this) < lengthFieldOffset this"
  shows "decode this = NoFrame this"
  using assms by (simp add: decode_def decode_frame_def)

lemma Decode_loop_NoFrame:
  "decode s = NoFrame s' \<Longrightarrow> Decode_loop s resp = Some (Returned resp s')"
  by (subst Decode_loop.simps) simp

lemma Decode_loop_Panicked:
  "decode s = Panicked e s' \<Longrightarrow> Decode_loop s resp = Some (Panic e s')"
  by (subst Decode_loop.simps) simp

lemma Decode_loop_Frame:
  "decode s = Frame arr s' \<Longrightarrow> Decode_loop s resp = Decode_loop s' (resp @ [arr])"
  by (subst Decode_loop.simps) simp

text \<open>
  A call of \<^verbatim>\<open>decode\<close> that returns a slice and leaves the decoder as it was is
  repeated for ever: the loop of \<^verbatim>\<open>Decode\<close> has no other exit than \<^verbatim>\<open>nil\<close> or a
  panic.
\<close>

lemma Decode_loop_no_progress:
  assumes "decode s = Frame arr s"
  shows "Decode_loop s resp = None"
proof -
  have "t \<noteq> s" if "Decode_loop t acc = Some r" for t acc r
  proof (rule Decode_loop.raw_induct [where P = "\<lambda>t acc r. t \<noteq> s", OF _ that])
    fix f this resp y
    assume IH: "\<And>t acc r. f t acc = Some r \<Longrightarrow> t \<noteq> s"
      and step: "(case decode this of
                    Frame arr this \<Rightarrow> f this (resp @ [arr])
                  | NoFrame this \<Rightarrow> Some (Returned resp this)
                  | Panicked e this \<Rightarrow> Some (Panic e this)) = Some y"
    show "this \<noteq> s"
    proof
      assume "this = s"
      with step assms have "f s (resp @ [arr]) = Some y" by simp
      from IH [OF this] show False by simp
    qed
  qed
  then show ?thesis by (cases "Decode_loop s resp") auto
qed

section \<open>A half packet leaves the decoder alone\<close>

lemma decode_frame_half_packet:
  assumes "getUnadjustedFrameLength (in_buf this) (lengthFieldOffset this)
             (lengthFieldLength this) (byteOrder this) = Inr raw"
    and "0 \<le> raw"
    and "frameLength = wrap64 (raw + wrap64 (lengthAdjustment this + lengthFieldEndOffset this))"
    and "frameLength \<le> maxFrameLength this"
    and "Len (in_buf this) < frameLength"
  shows "decode_frame this = NoFrame this"
  using assms by (simp add: decode_frame_def Let_def)

text \<open>
  A step that starts in discarding mode is not left unchanged. The decoder has
  \<open>maxFrameLength = 10\<close> and a two-byte length field at offset 0. The first call
  receives 11 bytes of a frame of length 13 and leaves the decoder in discarding mode with
  2 bytes to discard. The next chunk is \<^verbatim>\<open>09 09 00 06 48\<close>: the discarding block
  drops \<^verbatim>\<open>09 09\<close> (here 2 is also the minimum of \<open>bytesToDiscard\<close> and the
  buffered length) and leaves discarding mode; the length read is 6, the frame length 8
  is at most \<open>maxFrameLength\<close>, and both the 5 bytes at the start of the step and the
  3 bytes left are fewer than 8. The step returns \<^verbatim>\<open>nil\<close>, but the buffer, the mode
  and both counters have changed.
\<close>

theorem half_packet_in_discarding_mode_changes_decoder:
  "Decode ([], []) (NewLengthFieldFrameDecoder 10 0 2 0 0) [0, 11, 1, 2, 3, 4, 5, 6, 7, 8, 9]
     = Some (Returned []
         ((NewLengthFieldFrameDecoder 10 0 2 0 0)
            \<lparr>discardingTooLongFrame := True, tooLongFrameLength := 13, bytesToDiscard := 2,
             in_buf := \<lparr>consumed = [0, 11, 1, 2, 3, 4, 5, 6, 7, 8, 9], unread = [], spare = []\<rparr>\<rparr>))
   \<and> decode ((NewLengthFieldFrameDecoder 10 0 2 0 0)
            \<lparr>discardingTooLongFrame := True, tooLongFrameLength := 13, bytesToDiscard := 2,
             in_buf := \<lparr>consumed = [], unread = [9, 9, 0, 6, 72], spare = []\<rparr>\<rparr>)
     = NoFrame
         ((NewLengthFieldFrameDecoder 10 0 2 0 0)
            \<lparr>in_buf := \<lparr>consumed = [9, 9], unread = [0, 6, 72], spare = []\<rparr>\<rparr>)"
  by code_simp

text \<open>
  C8, as the code has it. If the raw length read at \<open>cur\<close> is non-negative, the
  computed frame length is at most \<open>maxFrameLength\<close>, and the buffer at \<open>cur\<close>
  holds fewer bytes than the frame length, then \<^verbatim>\<open>decode\<close> returns \<^verbatim>\<open>nil\<close> and
  leaves the decoder as \<open>cur\<close>. For a step that starts outside discarding mode
  \<open>cur\<close> is the decoder before the call: buffer and all state are completely
  unchanged and the call can be repeated when more bytes have arrived. For a step that
  starts in discarding mode the decoder is changed by the discarding block and by nothing
  else.
\<close>

theorem decode_half_packet_unchanged:
  assumes "if discardingTooLongFrame this
           then discardingTooLongFrameFunc this = Inr cur else cur = this"
    and "getUnadjustedFrameLength (in_buf cur) (lengthFieldOffset cur)
           (lengthFieldLength cur) (byteOrder cur) = Inr raw"
    and "0 \<le> raw"
    and "frameLength = wrap64 (raw + wrap64 (lengthAdjustment cur + lengthFieldEndOffset cur))"
    and "frameLength \<le> maxFrameLength cur"
    and "Len (in_buf cur) < frameLength"
  shows "decode this = NoFrame cur"
  by (simp add: decode_via_cur [OF assms(1)] decode_frame_half_packet [OF assms(2-6)])

theorem decode_half_packet_unchanged_witness:
  "decode ((NewLengthFieldFrameDecoder 1024 0 2 0 0)
             \<lparr>in_buf := \<lparr>consumed = [], unread = [0, 12, 72, 69], spare = []\<rparr>\<rparr>)
   = NoFrame ((NewLengthFieldFrameDecoder 1024 0 2 0 0)
             \<lparr>in_buf := \<lparr>consumed = [], unread = [0, 12, 72, 69], spare = []\<rparr>\<rparr>)"
  by (rule decode_half_packet_unchanged [where raw = 12 and frameLength = 14])
     (simp_all add: NewLengthFieldFrameDecoder_def getUnadjustedFrameLength_def Bytes_slice_def
        Len_def wrap64_def Uint_def)

section \<open>Negative length fields\<close>

lemma decode_frame_negative:
  assumes "lengthFieldOffset this \<le> Len (in_buf this)"
    and "getUnadjustedFrameLength (in_buf this) (lengthFieldOffset this)
           (lengthFieldLength this) (byteOrder this) = Inr raw"
    and "raw < 0"
    and "0 \<le> lengthFieldEndOffset this"
  shows "decode_frame this =
           Panicked (NegativeLengthField raw)
             (this\<lparr>in_buf := (in_buf this)
                \<lparr>consumed := consumed (in_buf this)
                    @ take (nat (lengthFieldEndOffset this)) (unread (in_buf this)),
                 unread := drop (nat (lengthFieldEndOffset this)) (unread (in_buf this))\<rparr>\<rparr>)"
  using assms by (simp add: decode_frame_def failOnNegativeLengthField_def Next_nonneg)

text \<open>
  The number of bytes a step with a negative raw length removes is not always
  \<open>lengthFieldEndOffset\<close>. First, a decoder with \<open>maxFrameLength = 4\<close> and a
  two-byte length field at offset 0 receives 5 bytes of a frame of length 7 and is left in
  discarding mode with 2 bytes to discard; on the next chunk \<^verbatim>\<open>09 09 80 00 48\<close> the
  discarding block drops \<^verbatim>\<open>09 09\<close> (2 is also the minimum of \<open>bytesToDiscard\<close>
  and the buffered length), the raw length read is \<open>- 32768\<close>, and the step panics
  having removed 4 bytes, while \<open>lengthFieldEndOffset = 2\<close>. Second, outside
  discarding mode with the single byte \<^verbatim>\<open>80\<close> buffered in an array of 8 zeroed bytes,
  the raw length is read as \<open>- 32768\<close> through the spare capacity and the step panics
  having removed the 1 byte there is.
\<close>

theorem negative_length_removes_other_counts:
  "Decode ([], []) (NewLengthFieldFrameDecoder 4 0 2 0 0) [0, 5, 1, 2, 3]
     = Some (Returned []
         ((NewLengthFieldFrameDecoder 4 0 2 0 0)
            \<lparr>discardingTooLongFrame := True, tooLongFrameLength := 7, bytesToDiscard := 2,
             in_buf := \<lparr>consumed = [0, 5, 1, 2, 3], unread = [], spare = []\<rparr>\<rparr>))
   \<and> decode ((NewLengthFieldFrameDecoder 4 0 2 0 0)
            \<lparr>discardingTooLongFrame := True, tooLongFrameLength := 7, bytesToDiscard := 2,
             in_buf := \<lparr>consumed = [], unread = [9, 9, 0x80, 0, 72], spare = []\<rparr>\<rparr>)
     = Panicked (NegativeLengthField (- 32768))
         ((NewLengthFieldFrameDecoder 4 0 2 0 0)
            \<lparr>in_buf := \<lparr>consumed = [9, 9, 0x80, 0], unread = [72], spare = []\<rparr>\<rparr>)
   \<and> lengthFieldEndOffset (NewLengthFieldFrameDecoder 4 0 2 0 0) = 2
   \<and> decode ((NewLengthFieldFrameDecoder 1024 0 2 0 0)
            \<lparr>in_buf := \<lparr>consumed = [], unread = [0x80], spare = [0, 0, 0, 0, 0, 0, 0]\<rparr>\<rparr>)
     = Panicked (NegativeLengthField (- 32768))
         ((NewLengthFieldFrameDecoder 1024 0 2 0 0)
            \<lparr>in_buf := \<lparr>consumed = [0x80], unread = [], spare = [0, 0, 0, 0, 0, 0, 0]\<rparr>\<rparr>)
   \<and> lengthFieldEndOffset (NewLengthFieldFrameDecoder 1024 0 2 0 0) = 2"
  by code_simp

text \<open>
  C7, as the code has it. If the raw length read at \<open>cur\<close> is negative and the
  length field lies within the bytes buffered at \<open>cur\<close> (\<open>lengthFieldOffset\<close> and
  \<open>lengthFieldEndOffset\<close> are at most the buffered length, and
  \<open>lengthFieldEndOffset\<close> is not negative), then \<^verbatim>\<open>decode\<close> panics with the
  negative-length message and returns no payload; when it panics, exactly
  \<open>lengthFieldEndOffset\<close> bytes have been removed from the front of the buffer of
  \<open>cur\<close> and nothing else of \<open>cur\<close> has changed. No hypothesis mentions
  \<open>failFast\<close>: the outcome is the same for both settings.
\<close>

theorem decode_negative_length_field:
  assumes "if discardingTooLongFrame this
           then discardingTooLongFrameFunc this = Inr cur else cur = this"
    and "lengthFieldOffset cur \<le> Len (in_buf cur)"
    and "getUnadjustedFrameLength (in_buf cur) (lengthFieldOffset cur)
           (lengthFieldLength cur) (byteOrder cur) = Inr raw"
    and "raw < 0"
    and "0 \<le> lengthFieldEndOffset cur"
    and "lengthFieldEndOffset cur \<le> Len (in_buf cur)"
  shows "decode this =
           Panicked (NegativeLengthField raw)
             (cur\<lparr>in_buf := (in_buf cur)
                \<lparr>consumed := consumed (in_buf cur)
                    @ take (nat (lengthFieldEndOffset cur)) (unread (in_buf cur)),
                 unread := drop (nat (lengthFieldEndOffset cur)) (unread (in_buf cur))\<rparr>\<rparr>)
         \<and> int (length (drop (nat (lengthFieldEndOffset cur)) (unread (in_buf cur))))
             = Len (in_buf cur) - lengthFieldEndOffset cur"
  using assms(5,6)
  by (simp add: decode_via_cur [OF assms(1)] decode_frame_negative [OF assms(2-5)] Len_def)

theorem decode_negative_length_field_witness:
  "decode ((NewLengthFieldFrameDecoder 1024 0 2 0 0)
             \<lparr>in_buf := \<lparr>consumed = [], unread = [0x80, 0, 65, 66], spare = []\<rparr>\<rparr>)
   = Panicked (NegativeLengthField (- 32768))
       ((NewLengthFieldFrameDecoder 1024 0 2 0 0)
             \<lparr>in_buf := \<lparr>consumed = [0x80, 0], unread = [65, 66], spare = []\<rparr>\<rparr>)"
  using decode_negative_length_field [where raw = "- 32768"
     and cur = "(NewLengthFieldFrameDecoder 1024 0 2 0 0)
             \<lparr>in_buf := \<lparr>consumed = [], unread = [0x80, 0, 65, 66], spare = []\<rparr>\<rparr>"
     and this = "(NewLengthFieldFrameDecoder 1024 0 2 0 0)
             \<lparr>in_buf := \<lparr>consumed = [], unread = [0x80, 0, 65, 66], spare = []\<rparr>\<rparr>"]
  by (simp add: NewLengthFieldFrameDecoder_def getUnadjustedFrameLength_def Bytes_slice_def
        Len_def wrap64_def Uint_def)

section \<open>The sign of the raw length\<close>

lemma be_value_bounds: "0 \<le> be_value bs \<and> be_value bs < 256 ^ length bs"
proof (induction bs)
  case Nil show ?case by simp
next
  case (Cons b bs)
  have "uint b \<le> 255" using uint_lt2p [of b] by simp
  then have *: "uint b * 256 ^ length bs \<le> 255 * 256 ^ length bs" by (simp add: mult_right_mono)
  have **: "0 \<le> uint b * 256 ^ length bs" by simp
  show ?case unfolding be_value.simps length_Cons power_Suc
    using * ** Cons by linarith
qed

lemma bit7_uint: "bit (b :: byte) 7 \<longleftrightarrow> 128 \<le> uint b"
proof -
  have lt: "uint b < 256" using uint_lt2p [of b] by simp
  have ge: "0 \<le> uint b" by simp
  have "bit b 7 \<longleftrightarrow> bit (uint b) 7" by (simp add: bit_uint_iff)
  also have "\<dots> \<longleftrightarrow> odd (uint b div 128)" by (simp add: bit_iff_odd)
  also have "\<dots> \<longleftrightarrow> 128 \<le> uint b"
  proof (cases "128 \<le> uint b")
    case True
    with lt have "uint b div 128 = 1" by arith
    with True show ?thesis by simp
  next
    case False
    with ge have "uint b div 128 = 0" by arith
    with False show ?thesis by simp
  qed
  finally show ?thesis .
qed

lemma be_value_top:
  "2 ^ (8 * length bs + 7) \<le> be_value (b # bs) \<longleftrightarrow> bit b 7"
proof -
  have p: "(2::int) ^ (8 * length bs + 7) = 128 * 256 ^ length bs"
    by (simp add: power_add power_mult)
  have r: "0 \<le> be_value bs" "be_value bs < 256 ^ length bs"
    using be_value_bounds [of bs] by simp_all
  have v: "be_value (b # bs) = uint b * 256 ^ length bs + be_value bs" by simp
  show ?thesis
  proof (cases "128 \<le> uint b")
    case True
    then have "128 * 256 ^ length bs \<le> uint b * 256 ^ length bs"
      by (simp add: mult_right_mono)
    with r have "2 ^ (8 * length bs + 7) \<le> be_value (b # bs)" unfolding p v by linarith
    with True show ?thesis by (simp only: bit7_uint)
  next
    case False
    then have "uint b \<le> 127" by simp
    then have "uint b * 256 ^ length bs \<le> 127 * 256 ^ length bs"
      by (simp add: mult_right_mono)
    with r have "\<not> 2 ^ (8 * length bs + 7) \<le> be_value (b # bs)" unfolding p v by linarith
    with False show ?thesis by (simp only: bit7_uint)
  qed
qed

lemma sint_word_of_int_eq:
  assumes "0 \<le> v" "v < 2 ^ LENGTH('a::len)"
  shows "sint (word_of_int v :: 'a word) = (if v < 2 ^ (LENGTH('a) - 1) then v else v - 2 ^ LENGTH('a))"
proof -
  define n where "n = LENGTH('a) - 1"
  have L: "LENGTH('a) = Suc n" by (simp add: n_def)
  define h :: int where "h = 2 ^ n"
  have two: "(2::int) ^ Suc n = 2 * h" by (simp add: h_def)
  have v2: "v < 2 * h" using assms(2) unfolding L two .
  have "sint (word_of_int v :: 'a word) = signed_take_bit n v"
    by (simp only: sint_sbintrunc' n_def)
  also have "\<dots> = (v + h) mod (2 * h) - h"
    by (simp only: signed_take_bit_eq_take_bit_shift take_bit_eq_mod two h_def [symmetric])
  finally have s: "sint (word_of_int v :: 'a word) = (v + h) mod (2 * h) - h" .
  have goal: "(v + h) mod (2 * h) - h = (if v < h then v else v - 2 * h)"
  proof (cases "v < h")
    case True
    with assms(1) have "(v + h) mod (2 * h) = v + h" by (intro mod_pos_pos_trivial) simp_all
    with True show ?thesis by simp
  next
    case False
    have "v + h = v - h + 2 * h" by simp
    then have "(v + h) mod (2 * h) = (v - h + 2 * h) mod (2 * h)" by (rule arg_cong)
    also have "\<dots> = (v - h) mod (2 * h)" by (simp only: mod_add_self2)
    also have "\<dots> = v - h" using False v2 by (intro mod_pos_pos_trivial) simp_all
    finally show ?thesis using False by simp
  qed
  show ?thesis unfolding s goal L diff_Suc_1 two h_def [symmetric] ..
qed

lemma Uint_bounds: "0 \<le> Uint order bs \<and> Uint order bs < 256 ^ length bs"
  using be_value_bounds [of bs] be_value_bounds [of "rev bs"]
  by (cases order) (simp_all add: Uint_def)

lemma Uint_top:
  assumes "bs \<noteq> []"
  shows "2 ^ (8 * length bs - 1) \<le> Uint order bs \<longleftrightarrow>
           bit (case order of BigEndian \<Rightarrow> hd bs | LittleEndian \<Rightarrow> last bs) 7"
proof (cases order)
  case BigEndian
  from assms obtain b cs where bs: "bs = b # cs" by (cases bs) auto
  have e: "8 * length bs - 1 = 8 * length cs + 7" by (simp add: bs)
  have "Uint order bs = be_value (b # cs)" by (simp add: BigEndian Uint_def bs)
  with be_value_top [of cs b] show ?thesis unfolding e by (simp add: BigEndian bs)
next
  case LittleEndian
  from assms obtain b cs where bs: "rev bs = b # cs" by (cases "rev bs") auto
  then have l: "length bs = Suc (length cs)" by (metis length_rev length_Cons)
  have e: "8 * length bs - 1 = 8 * length cs + 7" by (simp add: l)
  have lb: "last bs = b" using bs by (metis last_rev list.sel(1) rev_rev_ident)
  have "Uint order bs = be_value (b # cs)" by (simp add: LittleEndian Uint_def bs)
  with be_value_top [of cs b] show ?thesis unfolding e by (simp add: LittleEndian lb)
qed

lemma signed_field:
  assumes "length arr = n" "LENGTH('a::len) = 8 * n" "0 < n"
  shows "sint (word_of_int (Uint order arr) :: 'a word)
           = (if bit (case order of BigEndian \<Rightarrow> hd arr | LittleEndian \<Rightarrow> last arr) 7
              then Uint order arr - 2 ^ (8 * n) else Uint order arr)"
proof -
  have ne: "arr \<noteq> []" using assms by auto
  have "(256::int) ^ n = 2 ^ (8 * n)" by (simp add: power_mult)
  with Uint_bounds [of order arr] assms
  have b: "0 \<le> Uint order arr" "Uint order arr < 2 ^ LENGTH('a)" by simp_all
  have p: "(2::int) ^ LENGTH('a) = 2 ^ (8 * n)" by (simp add: assms(2))
  have t: "bit (case order of BigEndian \<Rightarrow> hd arr | LittleEndian \<Rightarrow> last arr) 7
             \<longleftrightarrow> 2 ^ (LENGTH('a) - 1) \<le> Uint order arr"
    using Uint_top [OF ne, of order] assms(1,2) by simp
  show ?thesis
  proof (cases "Uint order arr < 2 ^ (LENGTH('a) - 1)")
    case True
    then show ?thesis unfolding sint_word_of_int_eq [OF b] t by simp
  next
    case False
    then show ?thesis unfolding sint_word_of_int_eq [OF b] t p by simp
  qed
qed

lemma uint_or_push_bit:
  "8 \<le> n \<Longrightarrow> uint (w :: byte) OR push_bit n (y :: int) = uint w + push_bit n y"
  by (rule disjunctive_add [symmetric]) (auto simp: bit_uint_iff bit_push_bit_iff)

lemma three_bytes_value:
  "uint (c :: byte) OR push_bit 8 (uint (b :: byte)) OR push_bit 16 (uint (a :: byte))
     = be_value [a, b, c]"
proof -
  have "push_bit 8 (uint b) OR push_bit 16 (uint a) = push_bit 8 (uint b OR push_bit 8 (uint a))"
    by (simp add: push_bit_or push_bit_push_bit)
  also have "\<dots> = push_bit 8 (uint b + push_bit 8 (uint a))"
    by (simp only: uint_or_push_bit [OF order_refl])
  finally have "uint c OR push_bit 8 (uint b) OR push_bit 16 (uint a)
                  = uint c + push_bit 8 (uint b + push_bit 8 (uint a))"
    by (simp only: uint_or_push_bit [OF order_refl])
  then show ?thesis by (simp add: push_bit_eq_mult algebra_simps)
qed

text \<open>
  What the switch of \<^verbatim>\<open>getUnadjustedFrameLength\<close> computes for the widths 1 and 3 is the
  unsigned value of the bytes in the given order.
\<close>

lemma unsigned_field:
  assumes "length arr = nat len" "len = 1 \<or> len = 3"
  shows "(if len = 1 then uint (arr ! 0)
          else if order = LittleEndian
               then uint (arr ! 0) OR push_bit 8 (uint (arr ! 1)) OR push_bit 16 (uint (arr ! 2))
               else uint (arr ! 2) OR push_bit 8 (uint (arr ! 1)) OR push_bit 16 (uint (arr ! 0)))
         = Uint order arr"
proof -
  from assms(2) show ?thesis
  proof
    assume l: "len = 1"
    with assms(1) obtain a where "arr = [a]" by (cases arr) auto
    with l show ?thesis by (cases order) (simp_all add: Uint_def)
  next
    assume l: "len = 3"
    with assms(1) have "length arr = 3" by simp
    then obtain a b c where arr: "arr = [a, b, c]"
      by (cases arr; cases "tl arr"; cases "tl (tl arr)") auto
    show ?thesis
    proof (cases order)
      case BigEndian
      with l arr three_bytes_value [of c b a] show ?thesis by (simp add: Uint_def)
    next
      case LittleEndian
      with l arr three_bytes_value [of a b c] show ?thesis by (simp add: Uint_def)
    qed
  qed
qed

lemma getUnadjustedFrameLength_slice:
  assumes "Bytes_slice buf offset (wrap64 (offset + len)) = Inr arr"
  shows "getUnadjustedFrameLength buf offset len order =
          (if len = 1 then Inr (uint (arr ! 0))
           else if len = 2 then Inr (sint (word_of_int (Uint order arr) :: 16 word))
           else if len = 3 then
             (if order = LittleEndian
              then Inr (uint (arr ! 0) OR push_bit 8 (uint (arr ! 1)) OR push_bit 16 (uint (arr ! 2)))
              else Inr (uint (arr ! 2) OR push_bit 8 (uint (arr ! 1)) OR push_bit 16 (uint (arr ! 0))))
           else if len = 4 then Inr (sint (word_of_int (Uint order arr) :: 32 word))
           else if len = 8 then Inr (sint (word_of_int (Uint order arr) :: 64 word))
           else Inl (UnsupportedLengthFieldLength len))"
  by (simp add: getUnadjustedFrameLength_def assms)

text \<open>
  C10. Let the slice of the length field succeed with the bytes \<open>arr\<close>, and let
  \<open>hi\<close> be its most significant byte (the first byte in big-endian order, the last in
  little-endian order). For \<open>lengthFieldLength\<close> 2, 4 and 8 the raw length is the
  two's-complement value of the field at that width: the unsigned value of \<open>arr\<close> when
  the top bit of \<open>hi\<close> is clear, and that value minus \<open>2 ^ (8 * lengthFieldLength)\<close>
  when it is set; so it is negative exactly when that bit is set, and then \<^verbatim>\<open>decode\<close>
  panics with the negative-length message instead of using a large unsigned length. For
  \<open>lengthFieldLength\<close> 1 and 3 the raw length is exactly the unsigned value of
  \<open>arr\<close> in the configured byte order, whatever its top bit, and so never negative.
\<close>

theorem raw_length_signedness:
  assumes "if discardingTooLongFrame this
           then discardingTooLongFrameFunc this = Inr cur else cur = this"
    and "lengthFieldOffset cur \<le> Len (in_buf cur)"
    and "Bytes_slice (in_buf cur) (lengthFieldOffset cur)
           (wrap64 (lengthFieldOffset cur + lengthFieldLength cur)) = Inr arr"
    and "lengthFieldOffset cur + lengthFieldLength cur < 2 ^ 63"
    and "lengthFieldEndOffset cur = wrap64 (lengthFieldOffset cur + lengthFieldLength cur)"
    and "hi = (case byteOrder cur of BigEndian \<Rightarrow> hd arr | LittleEndian \<Rightarrow> last arr)"
  shows "(lengthFieldLength cur \<in> {2, 4, 8} \<longrightarrow>
           (\<exists>raw. getUnadjustedFrameLength (in_buf cur) (lengthFieldOffset cur)
                     (lengthFieldLength cur) (byteOrder cur) = Inr raw
                 \<and> raw = (if bit hi 7
                          then Uint (byteOrder cur) arr - 2 ^ (8 * nat (lengthFieldLength cur))
                          else Uint (byteOrder cur) arr)
                 \<and> (raw < 0 \<longleftrightarrow> bit hi 7)
                 \<and> (bit hi 7 \<longrightarrow> (\<exists>s. decode this = Panicked (NegativeLengthField raw) s))))
       \<and> (lengthFieldLength cur \<in> {1, 3} \<longrightarrow>
           getUnadjustedFrameLength (in_buf cur) (lengthFieldOffset cur)
             (lengthFieldLength cur) (byteOrder cur) = Inr (Uint (byteOrder cur) arr)
           \<and> 0 \<le> Uint (byteOrder cur) arr)"
proof -
  let ?off = "lengthFieldOffset cur" and ?len = "lengthFieldLength cur" and ?ord = "byteOrder cur"
  note gs = getUnadjustedFrameLength_slice [OF assms(3), of ?ord]
  from Bytes_slice_length [OF assms(3)]
  have sl: "length arr = nat (wrap64 (?off + ?len) - ?off)" "0 \<le> ?off" "?off \<le> wrap64 (?off + ?len)"
    by simp_all
  have signed: "\<exists>raw. getUnadjustedFrameLength (in_buf cur) ?off ?len ?ord = Inr raw
                 \<and> raw = (if bit hi 7 then Uint ?ord arr - 2 ^ (8 * nat ?len) else Uint ?ord arr)
                 \<and> (raw < 0 \<longleftrightarrow> bit hi 7)
                 \<and> (bit hi 7 \<longrightarrow> (\<exists>s. decode this = Panicked (NegativeLengthField raw) s))"
    if len: "?len \<in> {2, 4, 8}"
  proof -
    from len assms(4) sl have w: "wrap64 (?off + ?len) = ?off + ?len"
      by (auto simp: wrap64_def)
    with sl have la: "length arr = nat ?len" by simp
    define raw where "raw = (if bit hi 7 then Uint ?ord arr - 2 ^ (8 * nat ?len) else Uint ?ord arr)"
    have t: "(case ?ord of BigEndian \<Rightarrow> hd arr | LittleEndian \<Rightarrow> last arr) = hi"
      by (simp add: assms(6))
    from len consider "?len = 2" | "?len = 4" | "?len = 8" by auto
    then have g: "getUnadjustedFrameLength (in_buf cur) ?off ?len ?ord = Inr raw"
    proof cases
      case 1
      with la have "length arr = 2" by simp
      from signed_field [OF this, where 'a = 16, of ?ord] 1 show ?thesis
        unfolding gs by (simp add: raw_def t)
    next
      case 2
      with la have "length arr = 4" by simp
      from signed_field [OF this, where 'a = 32, of ?ord] 2 show ?thesis
        unfolding gs by (simp add: raw_def t)
    next
      case 3
      with la have "length arr = 8" by simp
      from signed_field [OF this, where 'a = 64, of ?ord] 3 show ?thesis
        unfolding gs by (simp add: raw_def t)
    qed
    have ub: "0 \<le> Uint ?ord arr" "Uint ?ord arr < 2 ^ (8 * nat ?len)"
      using Uint_bounds [of ?ord arr] la by (simp_all add: power_mult)
    have ne: "arr \<noteq> []" using la len by auto
    have neg: "raw < 0 \<longleftrightarrow> bit hi 7"
      using ub Uint_top [OF ne, of ?ord] by (auto simp: raw_def assms(6))
    have "\<exists>s. decode this = Panicked (NegativeLengthField raw) s" if "bit hi 7"
    proof -
      from that neg have "raw < 0" by simp
      moreover have "0 \<le> lengthFieldEndOffset cur" using sl assms(5) by simp
      ultimately show ?thesis
        using decode_frame_negative [OF assms(2) g] decode_via_cur [OF assms(1)] by simp
    qed
    with g neg show ?thesis unfolding raw_def by blast
  qed
  have unsigned: "getUnadjustedFrameLength (in_buf cur) ?off ?len ?ord = Inr (Uint ?ord arr)
                    \<and> 0 \<le> Uint ?ord arr"
    if len: "?len \<in> {1, 3}"
  proof -
    from len assms(4) sl have w: "wrap64 (?off + ?len) = ?off + ?len"
      by (auto simp: wrap64_def)
    with sl have la: "length arr = nat ?len" by simp
    from len have l13: "?len = 1 \<or> ?len = 3" by simp
    from l13 have "getUnadjustedFrameLength (in_buf cur) ?off ?len ?ord
            = Inr (if ?len = 1 then uint (arr ! 0)
                   else if ?ord = LittleEndian
                        then uint (arr ! 0) OR push_bit 8 (uint (arr ! 1)) OR push_bit 16 (uint (arr ! 2))
                        else uint (arr ! 2) OR push_bit 8 (uint (arr ! 1)) OR push_bit 16 (uint (arr ! 0)))"
      unfolding gs by auto
    then show ?thesis
      unfolding unsigned_field [OF la l13, of ?ord] using Uint_bounds [of ?ord arr] by simp
  qed
  from signed unsigned show ?thesis by blast
qed

theorem raw_length_signedness_witness:
  "\<exists>s. decode ((NewLengthFieldFrameDecoder 1024 0 2 0 0)
               \<lparr>in_buf := \<lparr>consumed = [], unread = [0x80, 0], spare = []\<rparr>\<rparr>)
       = Panicked (NegativeLengthField (- 32768)) s"
  using raw_length_signedness [where hi = "0x80" and arr = "[0x80, 0]"
     and cur = "(NewLengthFieldFrameDecoder 1024 0 2 0 0)
               \<lparr>in_buf := \<lparr>consumed = [], unread = [0x80, 0], spare = []\<rparr>\<rparr>"
     and this = "(NewLengthFieldFrameDecoder 1024 0 2 0 0)
               \<lparr>in_buf := \<lparr>consumed = [], unread = [0x80, 0], spare = []\<rparr>\<rparr>"]
  by (simp add: NewLengthFieldFrameDecoder_def Bytes_slice_def Len_def wrap64_def Uint_def)

section \<open>Frames longer than \<open>maxFrameLength\<close>\<close>

subsection \<open>No error reaches the caller\<close>

text \<open>
  With \<open>maxFrameLength = 4\<close>, a length field of one byte at offset 1 and no adjustment,
  the bytes \<^verbatim>\<open>AA 08 01 .. 08\<close> are a frame of length 10. It arrives whole, followed by
  three more bytes, so it is dropped at once and discarding is complete within the call.
  \<^verbatim>\<open>Decode\<close> returns normally with an empty list, with \<open>failFast\<close> off and with
  \<open>failFast\<close> on: no too-long-frame error is signalled in either case.
\<close>

theorem too_long_frame_returns_normally:
  "Decode ([], []) (NewLengthFieldFrameDecoder 4 1 1 0 0)
     [0xAA, 8, 1, 2, 3, 4, 5, 6, 7, 8, 0xBB, 1, 0x43]
   = Some (Returned []
       ((NewLengthFieldFrameDecoder 4 1 1 0 0)
          \<lparr>in_buf := \<lparr>consumed = [0xAA, 8, 1, 2, 3, 4, 5, 6, 7, 8], unread = [0xBB, 1, 0x43], spare = []\<rparr>\<rparr>))
   \<and> Decode ([], []) ((NewLengthFieldFrameDecoder 4 1 1 0 0)\<lparr>failFast := True\<rparr>)
     [0xAA, 8, 1, 2, 3, 4, 5, 6, 7, 8, 0xBB, 1, 0x43]
   = Some (Returned []
       ((NewLengthFieldFrameDecoder 4 1 1 0 0)
          \<lparr>failFast := True,
           in_buf := \<lparr>consumed = [0xAA, 8, 1, 2, 3, 4, 5, 6, 7, 8], unread = [0xBB, 1, 0x43], spare = []\<rparr>\<rparr>))"
  by code_simp

lemma exceededFrameLength_eq:
  assumes "0 \<le> frameLength" and "discard = wrap64 (frameLength - Len (in_buf this))"
  shows "exceededFrameLength this frameLength =
           Inr (if discard < 0
                then this\<lparr>tooLongFrameLength := (if bytesToDiscard this = 0 then 0 else frameLength),
                          discardingTooLongFrame := (bytesToDiscard this \<noteq> 0 \<and> discardingTooLongFrame this),
                          in_buf := (in_buf this)
                            \<lparr>consumed := consumed (in_buf this) @ take (nat frameLength) (unread (in_buf this)),
                             unread := drop (nat frameLength) (unread (in_buf this))\<rparr>\<rparr>
                else this\<lparr>tooLongFrameLength := (if discard = 0 then 0 else frameLength),
                          discardingTooLongFrame := (discard \<noteq> 0),
                          bytesToDiscard := discard,
                          in_buf := (in_buf this)
                            \<lparr>consumed := consumed (in_buf this) @ unread (in_buf this),
                             unread := []\<rparr>\<rparr>)"
  using assms
  by (simp add: exceededFrameLength_def Let_def Next_nonneg Len_def failIfNecessary_def fail_def)

text \<open>
  C5, as the code has it. \<^verbatim>\<open>fail\<close> does nothing, so a frame longer than
  \<open>maxFrameLength\<close> is never reported. When the raw length read at \<open>cur\<close> is
  non-negative and the computed frame length exceeds a non-negative \<open>maxFrameLength\<close>,
  \<^verbatim>\<open>decode\<close> returns \<^verbatim>\<open>nil\<close> without a panic, and the decoder it leaves is the one
  given here, in which \<open>failFast\<close> plays no part. With
  \<open>discard = frameLength - in.Len()\<close>: if \<open>discard\<close> is negative, \<open>frameLength\<close>
  bytes are removed from the buffer, \<open>bytesToDiscard\<close> is untouched, and
  \<open>tooLongFrameLength\<close> is \<open>frameLength\<close> only if \<open>bytesToDiscard\<close> is not 0
  (otherwise it is cleared again, with the discarding mode); if not, the buffer is emptied,
  \<open>bytesToDiscard\<close> becomes \<open>discard\<close>, and the decoder is in discarding mode with
  \<open>tooLongFrameLength = frameLength\<close> exactly when \<open>discard\<close> is not 0. The
  discarding block, where the end of discarding is noticed, never panics either.
\<close>

theorem too_long_frame_not_signaled:
  assumes "if discardingTooLongFrame this
           then discardingTooLongFrameFunc this = Inr cur else cur = this"
    and "lengthFieldOffset cur \<le> Len (in_buf cur)"
    and "getUnadjustedFrameLength (in_buf cur) (lengthFieldOffset cur)
           (lengthFieldLength cur) (byteOrder cur) = Inr raw"
    and "0 \<le> raw"
    and "frameLength = wrap64 (raw + wrap64 (lengthAdjustment cur + lengthFieldEndOffset cur))"
    and "maxFrameLength cur < frameLength"
    and "0 \<le> maxFrameLength cur"
    and "discard = wrap64 (frameLength - Len (in_buf cur))"
  shows "decode this =
           NoFrame
             (if discard < 0
              then cur\<lparr>tooLongFrameLength := (if bytesToDiscard cur = 0 then 0 else frameLength),
                       discardingTooLongFrame := (bytesToDiscard cur \<noteq> 0 \<and> discardingTooLongFrame cur),
                       in_buf := (in_buf cur)
                         \<lparr>consumed := consumed (in_buf cur) @ take (nat frameLength) (unread (in_buf cur)),
                          unread := drop (nat frameLength) (unread (in_buf cur))\<rparr>\<rparr>
              else cur\<lparr>tooLongFrameLength := (if discard = 0 then 0 else frameLength),
                       discardingTooLongFrame := (discard \<noteq> 0),
                       bytesToDiscard := discard,
                       in_buf := (in_buf cur)
                         \<lparr>consumed := consumed (in_buf cur) @ unread (in_buf cur),
                          unread := []\<rparr>\<rparr>)
         \<and> (\<exists>s. discardingTooLongFrameFunc this = Inr s)"
proof -
  from assms(6,7) have "0 \<le> frameLength" by simp
  note ex = exceededFrameLength_eq [OF this assms(8)]
  from assms(2-6) have "decode_frame cur =
      (case exceededFrameLength cur frameLength of
         Inl (e, s) \<Rightarrow> Panicked e s | Inr s \<Rightarrow> NoFrame s)"
    by (simp add: decode_frame_def Let_def)
  then have "decode this = (case exceededFrameLength cur frameLength of
         Inl (e, s) \<Rightarrow> Panicked e s | Inr s \<Rightarrow> NoFrame s)"
    by (simp add: decode_via_cur [OF assms(1)])
  moreover have "\<exists>s. discardingTooLongFrameFunc this = Inr s"
    by (simp add: discardingTooLongFrameFunc_eq)
  ultimately show ?thesis unfolding ex by simp
qed

theorem too_long_frame_not_signaled_witness:
  "decode ((NewLengthFieldFrameDecoder 4 1 1 0 0)
             \<lparr>failFast := True,
              in_buf := \<lparr>consumed = [], unread = [0xAA, 8, 1, 2, 3], spare = []\<rparr>\<rparr>)
     = NoFrame ((NewLengthFieldFrameDecoder 4 1 1 0 0)
             \<lparr>failFast := True, tooLongFrameLength := 10, discardingTooLongFrame := True,
              bytesToDiscard := 5,
              in_buf := \<lparr>consumed = [0xAA, 8, 1, 2, 3], unread = [], spare = []\<rparr>\<rparr>)
   \<and> (\<exists>s. discardingTooLongFrameFunc ((NewLengthFieldFrameDecoder 4 1 1 0 0)
             \<lparr>failFast := True,
              in_buf := \<lparr>consumed = [], unread = [0xAA, 8, 1, 2, 3], spare = []\<rparr>\<rparr>) = Inr s)"
proof -
  let ?d = "(NewLengthFieldFrameDecoder 4 1 1 0 0)
             \<lparr>failFast := True,
              in_buf := \<lparr>consumed = [], unread = [0xAA, 8, 1, 2, 3], spare = []\<rparr>\<rparr>"
  have "decode ?d =
           NoFrame
             (if (5::int) < 0
              then ?d\<lparr>tooLongFrameLength := (if bytesToDiscard ?d = 0 then 0 else 10),
                       discardingTooLongFrame := (bytesToDiscard ?d \<noteq> 0 \<and> discardingTooLongFrame ?d),
                       in_buf := (in_buf ?d)
                         \<lparr>consumed := consumed (in_buf ?d) @ take (nat 10) (unread (in_buf ?d)),
                          unread := drop (nat 10) (unread (in_buf ?d))\<rparr>\<rparr>
              else ?d\<lparr>tooLongFrameLength := (if (5::int) = 0 then 0 else 10),
                       discardingTooLongFrame := ((5::int) \<noteq> 0),
                       bytesToDiscard := 5,
                       in_buf := (in_buf ?d)
                         \<lparr>consumed := consumed (in_buf ?d) @ unread (in_buf ?d),
                          unread := []\<rparr>\<rparr>)
         \<and> (\<exists>s. discardingTooLongFrameFunc ?d = Inr s)"
    by (rule too_long_frame_not_signaled [where raw = 8 and cur = ?d])
       (simp_all add: NewLengthFieldFrameDecoder_def getUnadjustedFrameLength_def Bytes_slice_def
          Len_def wrap64_def Uint_def)
  then show ?thesis by (simp add: NewLengthFieldFrameDecoder_def)
qed

subsection \<open>The discarding block drops two bytes\<close>

text \<open>
  C3. The decoder is in discarding mode with 5 bytes still to discard and 8 bytes in the
  buffer. The discarding block should drop \<open>min 5 8 = 5\<close> bytes, bring
  \<open>bytesToDiscard\<close> to 0 and leave discarding mode. It drops 2 bytes, leaves
  \<open>bytesToDiscard = 3\<close> and stays in discarding mode: the computed minimum is
  overwritten by the constant 2 before it is used.
\<close>

theorem discardingTooLongFrameFunc_discards_two:
  "discardingTooLongFrameFunc
     ((NewLengthFieldFrameDecoder 4 1 1 0 0)
        \<lparr>discardingTooLongFrame := True, tooLongFrameLength := 10, bytesToDiscard := 5,
         in_buf := \<lparr>consumed = [], unread = [4, 5, 6, 7, 8, 0xBB, 1, 0x43], spare = []\<rparr>\<rparr>)
   = Inr ((NewLengthFieldFrameDecoder 4 1 1 0 0)
        \<lparr>discardingTooLongFrame := True, tooLongFrameLength := 10, bytesToDiscard := 3,
         in_buf := \<lparr>consumed = [4, 5], unread = [6, 7, 8, 0xBB, 1, 0x43], spare = []\<rparr>\<rparr>)"
  by (simp add: discardingTooLongFrameFunc_eq failIfNecessary_def NewLengthFieldFrameDecoder_def
        wrap64_def)

text \<open>
  C2. With \<open>maxFrameLength = 4\<close>, a length field of one byte at offset 1 and no
  adjustment, the stream is the frame \<^verbatim>\<open>AA 08 01 .. 08\<close> of length 10, too long,
  followed by the well-formed frame \<^verbatim>\<open>BB 01 43\<close> of length 3. It is fed as the first
  5 bytes and then the other 8. The second call drops only \<^verbatim>\<open>04 05\<close>, reads
  \<^verbatim>\<open>07\<close> as a length field, finds a second too-long frame of length 9 and empties
  the buffer. The well-formed frame is never returned, and the decoder is left in
  discarding mode with an odd \<open>bytesToDiscard\<close>, which steps of 2 do not bring to 0.
  No call reads beyond the buffered bytes, so the layouts play no part.
\<close>

theorem oversized_frame_swallows_next_frame:
  "feed_chunks (NewLengthFieldFrameDecoder 4 1 1 0 0)
     [(([], []), [0xAA, 8, 1, 2, 3]),
      (([], []), [4, 5, 6, 7, 8, 0xBB, 1, 0x43])]
   = Some (Returned []
       ((NewLengthFieldFrameDecoder 4 1 1 0 0)
          \<lparr>discardingTooLongFrame := True, tooLongFrameLength := 9, bytesToDiscard := 3,
           in_buf := \<lparr>consumed = [4, 5, 6, 7, 8, 0xBB, 1, 0x43], unread = [], spare = []\<rparr>\<rparr>))"
  by code_simp

section \<open>A length field that has not arrived yet\<close>

text \<open>
  \<^verbatim>\<open>decode\<close> compares \<^verbatim>\<open>in.Len()\<close> with \<open>lengthFieldOffset\<close>, not with
  \<open>lengthFieldEndOffset\<close>, although its comment says that past this test the length
  field can be read. With at least \<open>lengthFieldOffset\<close> but fewer than
  \<open>lengthFieldEndOffset\<close> bytes buffered, the slice of the length field reaches
  beyond the buffered bytes: it panics when the array has no capacity left there, and
  otherwise reads bytes that were never written to the stream.
\<close>

text \<open>
  C4. The decoder has a two-byte length field at offset 0, is not in discarding mode, and
  is fed the single byte \<^verbatim>\<open>80\<close>: one byte fewer than the length field needs. For
  every layout of the buffer \<^verbatim>\<open>Decode\<close> panics instead of returning an empty list:
  with no spare capacity the slice is out of range, and with a spare byte \<open>g\<close> the
  field is read as \<^verbatim>\<open>80\<close> followed by \<open>g\<close>, which is negative, and the buffered
  byte is removed before the panic.
\<close>

theorem partial_length_field_panics:
  "Decode lay (NewLengthFieldFrameDecoder 1024 0 2 0 0) [0x80]
   = Some (case snd lay of
       [] \<Rightarrow> Panic SliceBoundsOutOfRange
              ((NewLengthFieldFrameDecoder 1024 0 2 0 0)
                 \<lparr>in_buf := \<lparr>consumed = fst lay, unread = [0x80], spare = []\<rparr>\<rparr>)
     | g # rest \<Rightarrow> Panic (NegativeLengthField (uint g - 32768))
              ((NewLengthFieldFrameDecoder 1024 0 2 0 0)
                 \<lparr>in_buf := \<lparr>consumed = fst lay @ [0x80], unread = [], spare = g # rest\<rparr>\<rparr>))"
proof (cases "snd lay")
  case Nil
  then show ?thesis
    unfolding Decode_def
    by (subst Decode_loop_Panicked [where e = SliceBoundsOutOfRange])
       (simp_all add: decode_def decode_frame_def NewLengthFieldFrameDecoder_def NewBuffer_def
          Write_def Len_def getUnadjustedFrameLength_def Bytes_slice_def wrap64_def)
next
  case (Cons g rest)
  have "sint (word_of_int (Uint BigEndian [0x80, g]) :: 16 word) = uint g - 32768"
    by (subst signed_field [where n = 2]) (simp_all add: Uint_def)
  moreover have "uint g < 32768" using uint_lt2p [of g] by simp
  ultimately show ?thesis using Cons
    unfolding Decode_def
    by (subst Decode_loop_Panicked [where e = "NegativeLengthField (uint g - 32768)"])
       (simp_all add: decode_def decode_frame_def NewLengthFieldFrameDecoder_def NewBuffer_def
          Write_def Len_def getUnadjustedFrameLength_def Bytes_slice_def wrap64_def
          failOnNegativeLengthField_def Next_def)
qed

text \<open>
  C1. The decoder has \<open>maxFrameLength = 100\<close>, a one-byte length field at offset 1 and
  \<open>lengthAdjustment = - 1\<close>; the stream \<^verbatim>\<open>AA 02 41\<close> is one well-formed frame of
  length 3. Fed in one call it is returned whole. Fed as \<^verbatim>\<open>AA\<close> and then
  \<^verbatim>\<open>02 41\<close>, the first call finds one byte buffered, which is not less than
  \<open>lengthFieldOffset\<close>, and reads the length field from the spare capacity. When the
  first write allocates an array of 8 zeroed bytes, the field reads 0, the frame length is
  1, and the lone byte \<^verbatim>\<open>AA\<close> is returned as a frame; the second call then takes
  \<^verbatim>\<open>41\<close> for a length field and returns nothing. When the array has no spare
  capacity, the first call panics. Neither way gives the list of the single call.
\<close>

theorem chunked_feed_differs:
  "Decode ([], []) (NewLengthFieldFrameDecoder 100 1 1 (- 1) 0) [0xAA, 2, 0x41]
   = Some (Returned [[0xAA, 2, 0x41]]
       ((NewLengthFieldFrameDecoder 100 1 1 (- 1) 0)
          \<lparr>in_buf := \<lparr>consumed = [0xAA, 2, 0x41], unread = [], spare = []\<rparr>\<rparr>))
   \<and> feed_chunks (NewLengthFieldFrameDecoder 100 1 1 (- 1) 0)
       [(([], [0, 0, 0, 0, 0, 0, 0]), [0xAA]), (([0xAA], [0, 0, 0, 0, 0]), [2, 0x41])]
   = Some (Returned [[0xAA]]
       ((NewLengthFieldFrameDecoder 100 1 1 (- 1) 0)
          \<lparr>in_buf := \<lparr>consumed = [0xAA], unread = [2, 0x41], spare = [0, 0, 0, 0, 0]\<rparr>\<rparr>))
   \<and> feed_chunks (NewLengthFieldFrameDecoder 100 1 1 (- 1) 0)
       [(([], []), [0xAA]), (([0xAA], []), [2, 0x41])]
   = Some (Panic SliceBoundsOutOfRange
       ((NewLengthFieldFrameDecoder 100 1 1 (- 1) 0)
          \<lparr>in_buf := \<lparr>consumed = [], unread = [0xAA], spare = []\<rparr>\<rparr>))"
  by code_simp

section \<open>A frame of length zero\<close>

text \<open>
  C9. The decoder has a one-byte length field at offset 0, \<open>lengthAdjustment = - 1\<close>
  and strips nothing; it is fed the single byte \<^verbatim>\<open>00\<close>. The frame length is
  \<open>0 - 1 + 1 = 0\<close>, so \<^verbatim>\<open>decode\<close> returns an empty slice, which is not
  \<^verbatim>\<open>nil\<close>, and removes no byte from the buffer. The loop of \<^verbatim>\<open>Decode\<close> appends it
  and calls \<^verbatim>\<open>decode\<close> again on the same decoder, without end: \<^verbatim>\<open>Decode\<close> does not
  return, for any layout of the buffer.
\<close>

theorem Decode_zero_length_frame_never_returns:
  "Decode lay (NewLengthFieldFrameDecoder 10 0 1 (- 1) 0) [0] = None"
  unfolding Decode_def
  by (rule Decode_loop_no_progress [where arr = "[]"])
     (simp add: decode_def decode_frame_def NewLengthFieldFrameDecoder_def NewBuffer_def Write_def
        Len_def getUnadjustedFrameLength_def Bytes_slice_def wrap64_def Next_def Read_def)

section \<open>The example of the documentation\<close>

text \<open>
  C6. The decoder has a two-byte big-endian length field at offset 0 and no adjustment,
  and \<open>maxFrameLength\<close> is at least 14. The stream is \<^verbatim>\<open>00 0C\<close> followed by the 12
  bytes of \<^verbatim>\<open>HELLO, WORLD\<close>. After the write the array holds at least two more bytes,
  both zero (a first write of 14 bytes is given an array of 16). Then \<^verbatim>\<open>Decode\<close>
  returns exactly one payload: the whole 14 bytes when nothing is stripped, and the 12
  bytes of \<^verbatim>\<open>HELLO, WORLD\<close> when \<open>initialBytesToStrip = 2\<close>. The two spare bytes are
  needed because the loop calls \<^verbatim>\<open>decode\<close> once more on the emptied buffer, where
  0 is not less than \<open>lengthFieldOffset\<close>, and the length field is read from them.
\<close>

theorem hello_world_frames:
  assumes "14 \<le> maxLen"
  shows "Decode (c, 0 # 0 # sp) (NewLengthFieldFrameDecoder maxLen 0 2 0 0)
           [0x00, 0x0C, 0x48, 0x45, 0x4C, 0x4C, 0x4F, 0x2C, 0x20, 0x57, 0x4F, 0x52, 0x4C, 0x44]
         = Some (Returned
             [[0x00, 0x0C, 0x48, 0x45, 0x4C, 0x4C, 0x4F, 0x2C, 0x20, 0x57, 0x4F, 0x52, 0x4C, 0x44]]
             ((NewLengthFieldFrameDecoder maxLen 0 2 0 0)
                \<lparr>in_buf := \<lparr>consumed = c @ [0x00, 0x0C, 0x48, 0x45, 0x4C, 0x4C, 0x4F, 0x2C,
                                             0x20, 0x57, 0x4F, 0x52, 0x4C, 0x44],
                            unread = [], spare = 0 # 0 # sp\<rparr>\<rparr>))
       \<and> Decode (c, 0 # 0 # sp) (NewLengthFieldFrameDecoder maxLen 0 2 0 2)
           [0x00, 0x0C, 0x48, 0x45, 0x4C, 0x4C, 0x4F, 0x2C, 0x20, 0x57, 0x4F, 0x52, 0x4C, 0x44]
         = Some (Returned
             [[0x48, 0x45, 0x4C, 0x4C, 0x4F, 0x2C, 0x20, 0x57, 0x4F, 0x52, 0x4C, 0x44]]
             ((NewLengthFieldFrameDecoder maxLen 0 2 0 2)
                \<lparr>in_buf := \<lparr>consumed = c @ [0x00, 0x0C, 0x48, 0x45, 0x4C, 0x4C, 0x4F, 0x2C,
                                             0x20, 0x57, 0x4F, 0x52, 0x4C, 0x44],
                            unread = [], spare = 0 # 0 # sp\<rparr>\<rparr>))"
proof -
  note defs = decode_def decode_frame_def NewLengthFieldFrameDecoder_def NewBuffer_def
    Write_def Len_def getUnadjustedFrameLength_def Bytes_slice_def wrap64_def Next_def
    Read_def Uint_def
  show ?thesis
    unfolding Decode_def
    apply (rule conjI)
     apply (subst Decode_loop_Frame [where arr = "[0x00, 0x0C, 0x48, 0x45, 0x4C, 0x4C, 0x4F,
              0x2C, 0x20, 0x57, 0x4F, 0x52, 0x4C, 0x44]"])
      apply (use assms in \<open>simp add: defs\<close>)
     apply (subst Decode_loop_NoFrame)
      apply (use assms in \<open>simp add: defs\<close>)
     apply (simp add: defs)
    apply (subst Decode_loop_Frame [where arr = "[0x48, 0x45, 0x4C, 0x4C, 0x4F, 0x2C, 0x20,
             0x57, 0x4F, 0x52, 0x4C, 0x44]"])
     apply (use assms in \<open>simp add: defs\<close>)
    apply (subst Decode_loop_NoFrame)
     apply (use assms in \<open>simp add: defs\<close>)
    apply (simp add: defs)
    done
qed

theorem hello_world_frames_witness:
  "Decode ([], [0, 0]) (NewLengthFieldFrameDecoder 1024 0 2 0 0)
           [0x00, 0x0C, 0x48, 0x45, 0x4C, 0x4C, 0x4F, 0x2C, 0x20, 0x57, 0x4F, 0x52, 0x4C, 0x44]
         = Some (Returned
             [[0x00, 0x0C, 0x48, 0x45, 0x4C, 0x4C, 0x4F, 0x2C, 0x20, 0x57, 0x4F, 0x52, 0x4C, 0x44]]
             ((NewLengthFieldFrameDecoder 1024 0 2 0 0)
                \<lparr>in_buf := \<lparr>consumed = [0x00, 0x0C, 0x48, 0x45, 0x4C, 0x4C, 0x4F, 0x2C,
                                         0x20, 0x57, 0x4F, 0x52, 0x4C, 0x44],
                            unread = [], spare = [0, 0]\<rparr>\<rparr>))
   \<and> Decode ([], [0, 0]) (NewLengthFieldFrameDecoder 1024 0 2 0 2)
           [0x00, 0x0C, 0x48, 0x45, 0x4C, 0x4C, 0x4F, 0x2C, 0x20, 0x57, 0x4F, 0x52, 0x4C, 0x44]
         = Some (Returned
             [[0x48, 0x45, 0x4C, 0x4C, 0x4F, 0x2C, 0x20, 0x57, 0x4F, 0x52, 0x4C, 0x44]]
             ((NewLengthFieldFrameDecoder 1024 0 2 0 2)
                \<lparr>in_buf := \<lparr>consumed = [0x00, 0x0C, 0x48, 0x45, 0x4C, 0x4C, 0x4F, 0x2C,
                                         0x20, 0x57, 0x4F, 0x52, 0x4C, 0x44],
                            unread = [], spare = [0, 0]\<rparr>\<rparr>))"
  using hello_world_frames [of 1024 "[]" "[]"] by simp

end
